theory Spec2Isabelle
  imports Main "HOL-Library.Char_ord" "HOL-Library.List_Lexorder"
begin

section \<open>The persistence layer of nedb-indexeddb (src/persistence.js)\<close>

text \<open>
  The module keeps an in-memory document collection and an IndexedDB object store in step.
  Its code is callback driven: every step runs inside an event handler of the database
  engine. The embedding below passes a \<open>world\<close> explicitly: the databases of the engine,
  the trace of engine operations the code has issued, the invocations of the caller's
  callback, the lines written with \<open>console.error\<close>, the exceptions that left an event
  handler uncaught, and the calls made to the owning datastore.

  The engine (\<open>window.indexedDB\<close>) and the \<open>async\<close> library are not part of the module.
  What the module relies on is written out here as definitions of its own
  (\<open>idb_open\<close>, \<open>store_put\<close>, \<open>store_delete\<close>, \<open>eachSeries\<close>, \<open>indexOf\<close>, \<open>splice_array\<close>);
  which requests fail and how a transaction ends are inputs (\<open>environment\<close>).
\<close>

subsection \<open>Documents, stores, databases\<close>

type_synonym key = string

text \<open>
  A document: its \<open>_id\<close>, the truthiness of the three marker fields the module tests
  (\<open>$$deleted\<close>, \<open>$$indexCreated\<close>, \<open>$$indexRemoved\<close>), and the rest of its fields.
\<close>

record doc =
  doc_id :: key
  deleted :: bool
  indexCreated :: bool
  indexRemoved :: bool
  content :: string

text \<open>
  An object store created with \<open>{ keyPath: "_id" }\<close>: one record per key, the key read
  from the record, records held in ascending key order (the order a cursor visits them).
\<close>

type_synonym objectStore = "doc list"

record database =
  version :: nat
  objectStores :: "string \<rightharpoonup> objectStore"

text \<open>A database that was never opened has version 0 and no store.\<close>

definition no_database :: database where
  "no_database = \<lparr>version = 0, objectStores = Map.empty\<rparr>"

datatype mode = readonly | readwrite

datatype event =
    IDBOpen string "nat option"
  | UpgradeNeeded nat nat
  | CreateObjectStore string
  | Close
  | Transaction string mode
  | OpenCursor
  | Continue
  | Put doc
  | Delete key

record world =
  indexedDB :: "string \<Rightarrow> database"
  trace :: "event list"
  callbacks :: "string option list"
  console_error :: "string list"
  uncaught :: "string list"
  resetIndexes :: "doc list option list"
  processBuffer :: nat

text \<open>
  What the module cannot decide: which open, put and delete requests the engine fails,
  whether the engine ends a transaction with its \<open>complete\<close> event (\<open>None\<close>) or with an
  \<open>error\<close> event (\<open>Some e\<close>, \<open>e\<close> the text of \<open>trx.error\<close>), and the truthiness of the
  property \<open>inMemoryOnly\<close> of the global object \<open>self\<close> (the window), which
  \<open>loadDatabase\<close> reads.
\<close>

record environment =
  open_fails :: "nat option \<Rightarrow> bool"
  put_fails :: "doc \<Rightarrow> bool"
  delete_fails :: "key \<Rightarrow> bool"
  trx_error :: "string option"
  self_inMemoryOnly :: bool

text \<open>
  A \<open>Persistence\<close> object: the three fields its constructor copies from the datastore,
  and the snapshot the datastore's \<open>getAllData()\<close> returns.
\<close>

record persistence =
  inMemoryOnly :: bool
  dbName :: string
  storeName :: string
  getAllData :: "doc list"

definition fresh_world :: world where
  "fresh_world = \<lparr>indexedDB = (\<lambda>_. no_database), trace = [], callbacks = [],
     console_error = [], uncaught = [], resetIndexes = [], processBuffer = 0\<rparr>"

definition log :: "event \<Rightarrow> world \<Rightarrow> world" where
  "log e w = w\<lparr>trace := trace w @ [e]\<rparr>"

definition callback :: "string option \<Rightarrow> world \<Rightarrow> world" where
  "callback err w = w\<lparr>callbacks := callbacks w @ [err]\<rparr>"

definition console_error_call :: "string \<Rightarrow> world \<Rightarrow> world" where
  "console_error_call msg w = w\<lparr>console_error := console_error w @ [msg]\<rparr>"

definition throw :: "string \<Rightarrow> world \<Rightarrow> world" where
  "throw exn w = w\<lparr>uncaught := uncaught w @ [exn]\<rparr>"

subsection \<open>JavaScript arrays: indexOf and splice\<close>

fun indexOf_from :: "'a list \<Rightarrow> 'a \<Rightarrow> int \<Rightarrow> int" where
  "indexOf_from [] x i = - 1"
| "indexOf_from (y # ys) x i = (if y = x then i else indexOf_from ys x (i + 1))"

definition indexOf :: "'a list \<Rightarrow> 'a \<Rightarrow> int" where
  "indexOf xs x = indexOf_from xs x 0"

text \<open>
  The array after \<open>xs.splice(start, deleteCount)\<close>: a negative \<open>start\<close> counts from the
  end, and both arguments are clamped to the array.
\<close>

definition splice_array :: "'a list \<Rightarrow> int \<Rightarrow> int \<Rightarrow> 'a list" where
  "splice_array xs start deleteCount =
     (let len = int (length xs);
          actualStart = (if start < 0 then max (len + start) 0 else min start len);
          actualDeleteCount = min (max deleteCount 0) (len - actualStart)
      in take (nat actualStart) xs @ drop (nat (actualStart + actualDeleteCount)) xs)"

subsection \<open>async.eachSeries\<close>

text \<open>
  What an iteratee did with the callback \<open>eachSeries\<close> handed it: called it (with an
  error or without), or never called it.
\<close>

datatype signal = Called "string option" | NotCalled

text \<open>
  \<open>eachSeries arr iteratee final\<close>: the iteratee runs on one element at a time; an error
  ends the series and goes to \<open>final\<close>; after the last element \<open>final\<close> runs without
  error; an iteratee that never calls back leaves the series where it is.
\<close>

fun eachSeries ::
  "'a list \<Rightarrow> ('a \<Rightarrow> 's \<Rightarrow> signal \<times> 's) \<Rightarrow> (string option \<Rightarrow> 's \<Rightarrow> 's) \<Rightarrow> 's \<Rightarrow> 's" where
  "eachSeries [] iteratee final s = final None s"
| "eachSeries (x # xs) iteratee final s =
     (case iteratee x s of
        (Called None, s') \<Rightarrow> eachSeries xs iteratee final s'
      | (Called (Some err), s') \<Rightarrow> final (Some err) s'
      | (NotCalled, s') \<Rightarrow> s')"

subsection \<open>The engine: open, put, delete\<close>

definition contains :: "database \<Rightarrow> string \<Rightarrow> bool" where
  "contains db name = (objectStores db name \<noteq> None)"

definition createObjectStore :: "string \<Rightarrow> string \<Rightarrow> world \<Rightarrow> world" where
  "createObjectStore dbn name w =
     log (CreateObjectStore name)
       (w\<lparr>indexedDB := (indexedDB w)
            (dbn := (indexedDB w dbn)\<lparr>objectStores := (objectStores (indexedDB w dbn))(name \<mapsto> [])\<rparr>)\<rparr>)"

text \<open>
  \<open>indexedDB.open(name)\<close> opens at the current version, or creates the database at
  version 1; \<open>indexedDB.open(name, v)\<close> fails when \<open>v\<close> is below the current version (and
  a version 0 is refused), and runs the upgrade handler when \<open>v\<close> is above it. The
  result is \<open>True\<close> for the \<open>success\<close> event, \<open>False\<close> for the \<open>error\<close> event.
  The engine takes versions up to \<open>2^53 - 1\<close> and throws for a higher one; the
  definition does not follow that throw, and the statements on upgrades carry the bound on
  the version as a hypothesis.
\<close>

definition idb_open ::
  "environment \<Rightarrow> string \<Rightarrow> nat option \<Rightarrow> (world \<Rightarrow> world) \<Rightarrow> world \<Rightarrow> bool \<times> world" where
  "idb_open env dbn ver upgrade w =
     (let w1 = log (IDBOpen dbn ver) w;
          current = version (indexedDB w dbn);
          target = (case ver of None \<Rightarrow> (if current = 0 then 1 else current) | Some v \<Rightarrow> v)
      in if open_fails env ver \<or> target < current \<or> ver = Some 0 then (False, w1)
         else if current < target then
           (True, upgrade (log (UpgradeNeeded current target)
              (w1\<lparr>indexedDB := (indexedDB w1)(dbn := (indexedDB w1 dbn)\<lparr>version := target\<rparr>)\<rparr>)))
         else (True, w1))"

definition records :: "string \<Rightarrow> string \<Rightarrow> world \<Rightarrow> objectStore" where
  "records dbn name w = (case objectStores (indexedDB w dbn) name of None \<Rightarrow> [] | Some s \<Rightarrow> s)"

definition set_records :: "string \<Rightarrow> string \<Rightarrow> objectStore \<Rightarrow> world \<Rightarrow> world" where
  "set_records dbn name s w =
     w\<lparr>indexedDB := (indexedDB w)
          (dbn := (indexedDB w dbn)\<lparr>objectStores := (objectStores (indexedDB w dbn))(name \<mapsto> s)\<rparr>)\<rparr>"

definition without :: "key \<Rightarrow> objectStore \<Rightarrow> objectStore" where
  "without k s = filter (\<lambda>d. doc_id d \<noteq> k) s"

text \<open>\<open>store.put(o)\<close>: \<open>True\<close> for \<open>onsuccess\<close>, \<open>False\<close> for \<open>onerror\<close> (nothing stored).\<close>

definition store_put :: "environment \<Rightarrow> string \<Rightarrow> string \<Rightarrow> doc \<Rightarrow> world \<Rightarrow> bool \<times> world" where
  "store_put env dbn name d w =
     (if put_fails env d then (False, log (Put d) w)
      else (True, set_records dbn name
              (insort_key doc_id d (without (doc_id d) (records dbn name w))) (log (Put d) w)))"

text \<open>\<open>store.delete(k)\<close>: \<open>True\<close> for \<open>onsuccess\<close>, \<open>False\<close> for \<open>onerror\<close> (nothing removed).\<close>

definition store_delete :: "environment \<Rightarrow> string \<Rightarrow> string \<Rightarrow> key \<Rightarrow> world \<Rightarrow> bool \<times> world" where
  "store_delete env dbn name k w =
     (if delete_fails env k then (False, log (Delete k) w)
      else (True, set_records dbn name (without k (records dbn name w)) (log (Delete k) w)))"

text \<open>
  The end of a transaction: the engine fires \<open>error\<close> or \<open>complete\<close>, and the handler the
  operation registered runs. An engine aborts a transaction in which a request has failed:
  the requests still pending fail in turn, each with its own \<open>error\<close> event, and the writes
  are undone. The definition runs one handler, once, and follows neither the further
  failures nor the undoing. Exact sequences of callbacks are therefore stated only for runs
  in which at most one request fails; where a request has failed, the records of the model
  are those the engine holds before it undoes the transaction.
\<close>

definition transaction_end ::
  "environment \<Rightarrow> (string \<Rightarrow> world \<Rightarrow> world) \<Rightarrow> (world \<Rightarrow> world) \<Rightarrow> world \<Rightarrow> world" where
  "transaction_end env onerror oncomplete w =
     (case trx_error env of Some e \<Rightarrow> onerror e w | None \<Rightarrow> oncomplete w)"

subsection \<open>openDbEnsureStore and the transactions\<close>

definition onupgradeneeded :: "string \<Rightarrow> string \<Rightarrow> world \<Rightarrow> world" where
  "onupgradeneeded dbn name w =
     (if \<not> contains (indexedDB w dbn) name then createObjectStore dbn name w else w)"

function openDbEnsureStore ::
  "environment \<Rightarrow> string \<Rightarrow> nat option \<Rightarrow> string \<Rightarrow> world \<Rightarrow> string option \<times> world" where
  "openDbEnsureStore env dbn ver name w =
     (case idb_open env dbn ver (onupgradeneeded dbn name) w of
        (False, w1) \<Rightarrow> (Some ''Error opening IndexedDB'', w1)
      | (True, w1) \<Rightarrow>
          if \<not> contains (indexedDB w1 dbn) name
          then openDbEnsureStore env dbn (Some (version (indexedDB w1 dbn) + 1)) name (log Close w1)
          else (None, w1))"
  by pat_completeness auto

definition upgrade_due :: "nat option \<Rightarrow> nat \<Rightarrow> bool" where
  "upgrade_due ver current = (case ver of None \<Rightarrow> current = 0 | Some v \<Rightarrow> current < v)"

definition ensure_measure :: "environment \<times> string \<times> nat option \<times> string \<times> world \<Rightarrow> nat" where
  "ensure_measure = (\<lambda>(env, dbn, ver, name, w).
     if contains (indexedDB w dbn) name then 0
     else if upgrade_due ver (version (indexedDB w dbn)) then 1 else 2)"

termination openDbEnsureStore
  apply (relation "measure ensure_measure")
   apply simp
  apply (auto simp: ensure_measure_def idb_open_def Let_def upgrade_due_def log_def contains_def
      onupgradeneeded_def createObjectStore_def split: if_splits option.splits)
  done

declare openDbEnsureStore.simps [simp del]

definition openIndexedDB :: "environment \<Rightarrow> persistence \<Rightarrow> world \<Rightarrow> string option \<times> world" where
  "openIndexedDB env self w = openDbEnsureStore env (dbName self) None (storeName self) w"

definition openWriteTransaction ::
  "environment \<Rightarrow> persistence \<Rightarrow> world \<Rightarrow> string option \<times> world" where
  "openWriteTransaction env self w =
     (case openDbEnsureStore env (dbName self) None (storeName self) w of
        (Some err, w1) \<Rightarrow> (Some err, w1)
      | (None, w1) \<Rightarrow> (None, log (Transaction (storeName self) readwrite) w1))"

definition openReadTransaction ::
  "environment \<Rightarrow> persistence \<Rightarrow> world \<Rightarrow> string option \<times> world" where
  "openReadTransaction env self w =
     (case openDbEnsureStore env (dbName self) None (storeName self) w of
        (Some err, w1) \<Rightarrow> (Some err, w1)
      | (None, w1) \<Rightarrow> (None, log (Transaction (storeName self) readonly) w1))"

subsection \<open>persistCachedDatabase\<close>

text \<open>The cursor handler: every record's \<open>_id\<close> is pushed on \<open>keysToDelete\<close>.\<close>

fun cached_cursor :: "doc list \<Rightarrow> key list \<times> world \<Rightarrow> key list \<times> world" where
  "cached_cursor [] st = st"
| "cached_cursor (v # rest) (keysToDelete, w) =
     cached_cursor rest (keysToDelete @ [doc_id v], log Continue w)"

text \<open>
  The iteratee of the first series (lines 133 to 144). On success it runs
  \<open>if (keysToDelete.indexOf(o._id) === -1) keysToDelete.splice(keysToDelete.indexOf(o._id), 1)\<close>.
\<close>

definition cached_put ::
  "environment \<Rightarrow> persistence \<Rightarrow> doc \<Rightarrow> key list \<times> world \<Rightarrow> signal \<times> (key list \<times> world)" where
  "cached_put env self d = (\<lambda>(keysToDelete, w).
     case store_put env (dbName self) (storeName self) d w of
       (True, w1) \<Rightarrow>
         (Called None,
          (if indexOf keysToDelete (doc_id d) = - 1
           then splice_array keysToDelete (indexOf keysToDelete (doc_id d)) 1
           else keysToDelete, w1))
     | (False, w1) \<Rightarrow>
         (Called (Some (''Error putting document '' @ doc_id d)), (keysToDelete, w1)))"

definition cached_delete ::
  "environment \<Rightarrow> persistence \<Rightarrow> key \<Rightarrow> key list \<times> world \<Rightarrow> signal \<times> (key list \<times> world)" where
  "cached_delete env self k = (\<lambda>(keysToDelete, w).
     case store_delete env (dbName self) (storeName self) k w of
       (True, w1) \<Rightarrow> (Called None, (keysToDelete, w1))
     | (False, w1) \<Rightarrow> (Called (Some (''Error deleting document '' @ k)), (keysToDelete, w1)))"

text \<open>The end of the second series (line 158): \<open>if (err) console.error(err)\<close>.\<close>

definition cached_deletesDone :: "string option \<Rightarrow> key list \<times> world \<Rightarrow> key list \<times> world" where
  "cached_deletesDone err = (\<lambda>(keysToDelete, w).
     case err of Some e \<Rightarrow> (keysToDelete, console_error_call e w) | None \<Rightarrow> (keysToDelete, w))"

text \<open>
  The end of the first series (lines 144 to 161): \<open>if (err) callback (err)\<close>, without a
  \<open>return\<close>, and then the second series over \<open>keysToDelete\<close>.
\<close>

definition cached_putsDone ::
  "environment \<Rightarrow> persistence \<Rightarrow> string option \<Rightarrow> key list \<times> world \<Rightarrow> key list \<times> world" where
  "cached_putsDone env self err = (\<lambda>(keysToDelete, w).
     let w1 = (case err of Some e \<Rightarrow> callback (Some e) w | None \<Rightarrow> w)
     in eachSeries keysToDelete (cached_delete env self) cached_deletesDone (keysToDelete, w1))"

definition persistCachedDatabase :: "environment \<Rightarrow> persistence \<Rightarrow> world \<Rightarrow> world" where
  "persistCachedDatabase env self w =
     (if inMemoryOnly self then callback None w
      else
        let objects = getAllData self in
        case openWriteTransaction env self w of
          (Some err, w1) \<Rightarrow> callback (Some err) w1
        | (None, w1) \<Rightarrow>
            transaction_end env
              (\<lambda>e. callback (Some (''Error persisting cached data:'' @ e)))
              (callback None)
              (snd (eachSeries objects (cached_put env self) (cached_putsDone env self)
                 (cached_cursor (records (dbName self) (storeName self) w1)
                    ([], log OpenCursor w1)))))"

subsection \<open>persistNewState\<close>

text \<open>
  The iteratee (lines 185 to 205). The delete error handler evaluates
  \<open>"Error deleting document " + k\<close>; no \<open>k\<close> is in scope there, so the handler throws
  before it reaches the series callback. A marker document takes neither branch, and no
  branch calls the series callback for it.
\<close>

definition newState_iteratee ::
  "environment \<Rightarrow> persistence \<Rightarrow> doc \<Rightarrow> world \<Rightarrow> signal \<times> world" where
  "newState_iteratee env self d w =
     (if deleted d then
        (case store_delete env (dbName self) (storeName self) (doc_id d) w of
           (True, w1) \<Rightarrow> (Called None, w1)
         | (False, w1) \<Rightarrow> (NotCalled, throw ''ReferenceError: k is not defined'' w1))
      else if \<not> indexCreated d \<and> \<not> indexRemoved d then
        (case store_put env (dbName self) (storeName self) d w of
           (True, w1) \<Rightarrow> (Called None, w1)
         | (False, w1) \<Rightarrow> (Called (Some (''Error putting document '' @ doc_id d)), w1))
      else (NotCalled, w))"

text \<open>
  The end of the series (line 205): \<open>function () { if (err) console.error(err) }\<close>. The
  function has no parameter, so \<open>err\<close> is the one of the enclosing transaction callback.
\<close>

definition newState_done :: "string option \<Rightarrow> string option \<Rightarrow> world \<Rightarrow> world" where
  "newState_done err = (\<lambda>_ w. case err of Some e \<Rightarrow> console_error_call e w | None \<Rightarrow> w)"

definition persistNewState :: "environment \<Rightarrow> persistence \<Rightarrow> doc list \<Rightarrow> world \<Rightarrow> world" where
  "persistNewState env self objects w =
     (case openWriteTransaction env self w of
        (Some err, w1) \<Rightarrow> callback (Some err) w1
      | (None, w1) \<Rightarrow>
          transaction_end env
            (\<lambda>e. callback (Some (''Error persisting cached data: '' @ e)))
            (callback None)
            (eachSeries objects (newState_iteratee env self) (newState_done None) w1))"

subsection \<open>loadDatabase\<close>

definition resetIndexes_call :: "doc list option \<Rightarrow> world \<Rightarrow> world" where
  "resetIndexes_call arg w = w\<lparr>resetIndexes := resetIndexes w @ [arg]\<rparr>"

definition processBuffer_call :: "world \<Rightarrow> world" where
  "processBuffer_call w = w\<lparr>processBuffer := processBuffer w + 1\<rparr>"

fun load_cursor :: "doc list \<Rightarrow> doc list \<times> world \<Rightarrow> doc list \<times> world" where
  "load_cursor [] (objects, w) = (objects, resetIndexes_call (Some objects) w)"
| "load_cursor (v # rest) (objects, w) = load_cursor rest (objects @ [v], log Continue w)"

text \<open>
  Line 223 tests \<open>self.inMemoryOnly\<close>. The function declares no \<open>self\<close>, so the name is
  the global object, not the \<open>Persistence\<close> object.
\<close>

definition loadDatabase :: "environment \<Rightarrow> persistence \<Rightarrow> world \<Rightarrow> world" where
  "loadDatabase env self w =
     (let w0 = resetIndexes_call None w in
      if self_inMemoryOnly env then callback None w0
      else
        case openWriteTransaction env self w0 of
          (Some err, w1) \<Rightarrow> callback (Some err) w1
        | (None, w1) \<Rightarrow>
            transaction_end env
              (\<lambda>e. callback (Some (''Error loading database:'' @ e)))
              (\<lambda>w. callback None (processBuffer_call w))
              (snd (load_cursor (records (dbName self) (storeName self) w1)
                 ([], log OpenCursor w1))))"

subsection \<open>Observations\<close>

definition durableKeys :: "persistence \<Rightarrow> world \<Rightarrow> key set" where
  "durableKeys self w = set (map doc_id (records (dbName self) (storeName self) w))"

fun is_upgrade :: "event \<Rightarrow> bool" where
  "is_upgrade (UpgradeNeeded _ _) = True"
| "is_upgrade _ = False"

definition upgrades :: "world \<Rightarrow> nat" where
  "upgrades w = length (filter is_upgrade (trace w))"

fun is_store_op :: "event \<Rightarrow> bool" where
  "is_store_op OpenCursor = True"
| "is_store_op Continue = True"
| "is_store_op (Put _) = True"
| "is_store_op (Delete _) = True"
| "is_store_op _ = False"

definition store_ops :: "world \<Rightarrow> event list" where
  "store_ops w = filter is_store_op (trace w)"

subsection \<open>Concrete inputs\<close>

text \<open>An engine on which no request fails and every transaction completes.\<close>

definition ok_env :: environment where
  "ok_env = \<lparr>open_fails = (\<lambda>_. False), put_fails = (\<lambda>_. False), delete_fails = (\<lambda>_. False),
     trx_error = None, self_inMemoryOnly = False\<rparr>"

text \<open>
  An engine that fails the put and the delete of one key, and ends its transactions with
  an error.
\<close>

definition failing_on :: "key \<Rightarrow> environment" where
  "failing_on k = \<lparr>open_fails = (\<lambda>_. False), put_fails = (\<lambda>d. doc_id d = k),
     delete_fails = (\<lambda>j. j = k), trx_error = Some ''AbortError'', self_inMemoryOnly = False\<rparr>"


definition plain :: "key \<Rightarrow> doc" where
  "plain k = \<lparr>doc_id = k, deleted = False, indexCreated = False, indexRemoved = False,
     content = []\<rparr>"

definition collection :: "doc list \<Rightarrow> persistence" where
  "collection ds = \<lparr>inMemoryOnly = False, dbName = ''db'', storeName = ''docs'', getAllData = ds\<rparr>"

text \<open>The database \<open>db\<close> at version 1, its store \<open>docs\<close> holding the given records.\<close>

definition stored :: "doc list \<Rightarrow> world" where
  "stored ds = fresh_world\<lparr>indexedDB :=
     (\<lambda>_. no_database)(''db'' := \<lparr>version = 1, objectStores = [''docs'' \<mapsto> ds]\<rparr>)\<rparr>"

text \<open>The database \<open>db\<close> at version 3, holding another store and no store \<open>docs\<close>.\<close>

definition without_store :: world where
  "without_store = fresh_world\<lparr>indexedDB :=
     (\<lambda>_. no_database)(''db'' := \<lparr>version = 3, objectStores = [''other'' \<mapsto> []]\<rparr>)\<rparr>"

section \<open>Ensuring the store\<close>

lemma upgrades_log [simp]: "upgrades (log e w) = upgrades w + (if is_upgrade e then 1 else 0)"
  by (simp add: upgrades_def log_def)

lemma indexedDB_log [simp]: "indexedDB (log e w) = indexedDB w"
  by (simp add: log_def)

lemma ensure_present:
  assumes "\<not> open_fails env None" and "contains (indexedDB w dbn) name"
    and "0 < version (indexedDB w dbn)"
  shows "openDbEnsureStore env dbn None name w = (None, log (IDBOpen dbn None) w)"
  using assms
  by (subst openDbEnsureStore.simps) (simp add: idb_open_def Let_def)

lemma ensure_upgrade:
  assumes "\<not> open_fails env (Some v)" and "\<not> contains (indexedDB w dbn) name"
    and "version (indexedDB w dbn) < v"
  shows "openDbEnsureStore env dbn (Some v) name w =
     (None, createObjectStore dbn name (log (UpgradeNeeded (version (indexedDB w dbn)) v)
        ((log (IDBOpen dbn (Some v)) w)\<lparr>indexedDB := (indexedDB w)(dbn := (indexedDB w dbn)\<lparr>version := v\<rparr>)\<rparr>)))"
  using assms
  by (subst openDbEnsureStore.simps)
     (auto simp add: idb_open_def Let_def onupgradeneeded_def contains_def createObjectStore_def log_def)

lemma ensure_new:
  assumes "\<not> open_fails env None" and "\<not> contains (indexedDB w dbn) name"
    and "version (indexedDB w dbn) = 0"
  shows "openDbEnsureStore env dbn None name w =
     (None, createObjectStore dbn name (log (UpgradeNeeded 0 1)
        ((log (IDBOpen dbn None) w)\<lparr>indexedDB := (indexedDB w)(dbn := (indexedDB w dbn)\<lparr>version := 1\<rparr>)\<rparr>)))"
  using assms
  by (subst openDbEnsureStore.simps)
     (auto simp add: idb_open_def Let_def onupgradeneeded_def contains_def createObjectStore_def log_def)

lemma ensure_missing:
  assumes "\<not> open_fails env None" and "\<not> contains (indexedDB w dbn) name"
    and "0 < version (indexedDB w dbn)"
  shows "openDbEnsureStore env dbn None name w =
     openDbEnsureStore env dbn (Some (version (indexedDB w dbn) + 1)) name
       (log Close (log (IDBOpen dbn None) w))"
  using assms
  by (subst openDbEnsureStore.simps) (simp add: idb_open_def Let_def)

lemma contains_createObjectStore [simp]:
  "contains (indexedDB (createObjectStore dbn name w) dbn) name"
  by (simp add: createObjectStore_def contains_def)

lemma ensure_store_once:
  assumes nofail: "\<And>v. \<not> open_fails env v"
    and wf: "0 < version (indexedDB w dbn) \<or> \<not> contains (indexedDB w dbn) name"
    and bound: "contains (indexedDB w dbn) name \<or> version (indexedDB w dbn) < 2 ^ 53 - 1"
  shows "case openDbEnsureStore env dbn None name w of (err, w') \<Rightarrow>
           err = None \<and> contains (indexedDB w' dbn) name \<and> 0 < version (indexedDB w' dbn) \<and>
           (if contains (indexedDB w dbn) name
            then upgrades w' = upgrades w \<and> indexedDB w' = indexedDB w
            else upgrades w' = upgrades w + 1 \<and>
                 version (indexedDB w' dbn) = version (indexedDB w dbn) + 1) \<and>
           (case openDbEnsureStore env dbn None name w' of (err2, w2) \<Rightarrow>
              err2 = None \<and> upgrades w2 = upgrades w' \<and> indexedDB w2 = indexedDB w')"
proof -
  obtain err w' where r: "openDbEnsureStore env dbn None name w = (err, w')"
    by (cases "openDbEnsureStore env dbn None name w")
  have first: "err = None \<and> contains (indexedDB w' dbn) name \<and> 0 < version (indexedDB w' dbn) \<and>
           (if contains (indexedDB w dbn) name
            then upgrades w' = upgrades w \<and> indexedDB w' = indexedDB w
            else upgrades w' = upgrades w + 1 \<and>
                 version (indexedDB w' dbn) = version (indexedDB w dbn) + 1)"
  proof (cases "contains (indexedDB w dbn) name")
    case True
    with wf have "0 < version (indexedDB w dbn)" by simp
    with True nofail r show ?thesis by (auto simp add: ensure_present)
  next
    case False
    show ?thesis
    proof (cases "version (indexedDB w dbn) = 0")
      case True
      with False nofail have "w' = createObjectStore dbn name (log (UpgradeNeeded 0 1)
        ((log (IDBOpen dbn None) w)\<lparr>indexedDB := (indexedDB w)(dbn := (indexedDB w dbn)\<lparr>version := 1\<rparr>)\<rparr>))"
        and "err = None"
        using r by (simp_all add: ensure_new)
      with False True show ?thesis
        by (simp add: createObjectStore_def log_def upgrades_def contains_def)
    next
      case pos: False
      with False nofail have "err = None" and "w' = createObjectStore dbn name
         (log (UpgradeNeeded (version (indexedDB w dbn)) (version (indexedDB w dbn) + 1))
           ((log (IDBOpen dbn (Some (version (indexedDB w dbn) + 1)))
              (log Close (log (IDBOpen dbn None) w)))
            \<lparr>indexedDB := (indexedDB w)(dbn := (indexedDB w dbn)\<lparr>version := version (indexedDB w dbn) + 1\<rparr>)\<rparr>))"
        using r by (simp_all add: ensure_missing ensure_upgrade)
      with False pos show ?thesis
        by (simp add: createObjectStore_def log_def upgrades_def contains_def)
    qed
  qed
  with nofail have "openDbEnsureStore env dbn None name w' = (None, log (IDBOpen dbn None) w')"
    by (simp add: ensure_present)
  with first r show ?thesis by simp
qed

section \<open>What opening leaves alone\<close>

lemma eachSeries_obs:
  assumes "\<And>x s. f (snd (iteratee x s)) = f s" and "\<And>e s. f (final e s) = f s"
  shows "f (eachSeries xs iteratee final s) = f s"
proof (induction xs arbitrary: s)
  case Nil
  show ?case by (simp add: assms)
next
  case (Cons x xs)
  have "f (snd (iteratee x s)) = f s" by (rule assms)
  then show ?case
    by (cases "iteratee x s") (auto simp: Cons assms split: signal.splits option.splits)
qed

lemma idb_open_frame:
  "idb_open env dbn ver (onupgradeneeded dbn name) w = (ok, w1) \<Longrightarrow>
     callbacks w1 = callbacks w \<and> console_error w1 = console_error w \<and> uncaught w1 = uncaught w
     \<and> resetIndexes w1 = resetIndexes w \<and> processBuffer w1 = processBuffer w
     \<and> store_ops w1 = store_ops w"
  by (auto simp: idb_open_def Let_def log_def onupgradeneeded_def createObjectStore_def store_ops_def
      split: if_splits)

lemma ensure_frame:
  "openDbEnsureStore env dbn ver name w = (err, w') \<Longrightarrow>
     callbacks w' = callbacks w \<and> console_error w' = console_error w \<and> uncaught w' = uncaught w
     \<and> resetIndexes w' = resetIndexes w \<and> processBuffer w' = processBuffer w
     \<and> store_ops w' = store_ops w"
proof (induction env dbn ver name w arbitrary: err w' rule: openDbEnsureStore.induct)
  case (1 env dbn ver name w)
  obtain ok w1 where o: "idb_open env dbn ver (onupgradeneeded dbn name) w = (ok, w1)"
    by (cases "idb_open env dbn ver (onupgradeneeded dbn name) w")
  note fr = idb_open_frame [OF o]
  show ?case
  proof (cases "ok \<and> \<not> contains (indexedDB w1 dbn) name")
    case True
    with o "1.prems" have "openDbEnsureStore env dbn (Some (version (indexedDB w1 dbn) + 1)) name (log Close w1) = (err, w')"
      by (subst (asm) openDbEnsureStore.simps) simp
    from "1.IH" [OF o [symmetric] _ _ this] True fr show ?thesis
      by (simp add: log_def store_ops_def)
  next
    case False
    with o "1.prems" fr show ?thesis
      by (subst (asm) openDbEnsureStore.simps) (auto split: if_splits bool.splits)
  qed
qed

lemma ensure_error:
  "openDbEnsureStore env dbn ver name w = (Some e, w') \<Longrightarrow> e = ''Error opening IndexedDB''"
proof (induction env dbn ver name w arbitrary: e w' rule: openDbEnsureStore.induct)
  case (1 env dbn ver name w)
  obtain ok w1 where o: "idb_open env dbn ver (onupgradeneeded dbn name) w = (ok, w1)"
    by (cases "idb_open env dbn ver (onupgradeneeded dbn name) w")
  show ?case
  proof (cases "ok \<and> \<not> contains (indexedDB w1 dbn) name")
    case True
    with o "1.prems" have "openDbEnsureStore env dbn (Some (version (indexedDB w1 dbn) + 1)) name (log Close w1) = (Some e, w')"
      by (subst (asm) openDbEnsureStore.simps) simp
    from "1.IH" [OF o [symmetric] _ _ this] True show ?thesis by simp
  next
    case False
    with o "1.prems" show ?thesis
      by (subst (asm) openDbEnsureStore.simps) (auto split: if_splits bool.splits)
  qed
qed

lemma idb_open_resetIndexes:
  "idb_open env dbn ver (onupgradeneeded dbn name) (resetIndexes_call a w) =
     (case idb_open env dbn ver (onupgradeneeded dbn name) w of
        (ok, w1) \<Rightarrow> (ok, resetIndexes_call a w1))"
  by (simp add: idb_open_def Let_def log_def resetIndexes_call_def onupgradeneeded_def
      createObjectStore_def)

lemma ensure_resetIndexes:
  "openDbEnsureStore env dbn ver name (resetIndexes_call a w) =
     (case openDbEnsureStore env dbn ver name w of (err, w') \<Rightarrow> (err, resetIndexes_call a w'))"
proof (induction env dbn ver name w rule: openDbEnsureStore.induct)
  case (1 env dbn ver name w)
  obtain ok w1 where o: "idb_open env dbn ver (onupgradeneeded dbn name) w = (ok, w1)"
    by (cases "idb_open env dbn ver (onupgradeneeded dbn name) w")
  have c: "log Close (resetIndexes_call a w1) = resetIndexes_call a (log Close w1)"
    by (simp add: log_def resetIndexes_call_def)
  have i: "indexedDB (resetIndexes_call a w1) = indexedDB w1"
    by (simp add: resetIndexes_call_def)
  show ?case
  proof (cases "ok \<and> \<not> contains (indexedDB w1 dbn) name")
    case True
    from "1.IH" [OF o [symmetric]] True
    have "openDbEnsureStore env dbn (Some (version (indexedDB w1 dbn) + 1)) name
            (resetIndexes_call a (log Close w1)) =
          (case openDbEnsureStore env dbn (Some (version (indexedDB w1 dbn) + 1)) name
             (log Close w1) of (err, w') \<Rightarrow> (err, resetIndexes_call a w'))"
      by simp
    with True o show ?thesis
      by (subst openDbEnsureStore.simps, subst (2) openDbEnsureStore.simps)
         (simp add: idb_open_resetIndexes c i)
  next
    case False
    with o show ?thesis
      by (subst openDbEnsureStore.simps, subst (2) openDbEnsureStore.simps)
         (auto simp add: idb_open_resetIndexes c i split: bool.splits)
  qed
qed

lemma openWriteTransaction_resetIndexes:
  "openWriteTransaction env self (resetIndexes_call a w) =
     (case openWriteTransaction env self w of (err, w') \<Rightarrow> (err, resetIndexes_call a w'))"
proof -
  have c: "\<And>e v. log e (resetIndexes_call a v) = resetIndexes_call a (log e v)"
    by (simp add: log_def resetIndexes_call_def)
  show ?thesis
    by (cases "openDbEnsureStore env (dbName self) None (storeName self) w")
       (simp add: openWriteTransaction_def ensure_resetIndexes c split: option.splits)
qed




section \<open>One upgrade for a missing store\<close>

lemma upgrades_frame [simp]:
  "upgrades (callback e w) = upgrades w"
  "upgrades (console_error_call m w) = upgrades w"
  "upgrades (throw x w) = upgrades w"
  "upgrades (resetIndexes_call a w) = upgrades w"
  "upgrades (processBuffer_call w) = upgrades w"
  "upgrades (set_records dbn name s w) = upgrades w"
  by (simp_all add: upgrades_def callback_def console_error_call_def throw_def
      resetIndexes_call_def processBuffer_call_def set_records_def)

lemma store_put_upgrades: "upgrades (snd (store_put env dbn name d w)) = upgrades w"
  by (simp add: store_put_def)

lemma store_delete_upgrades: "upgrades (snd (store_delete env dbn name k w)) = upgrades w"
  by (simp add: store_delete_def)

lemma newState_iteratee_upgrades:
  "upgrades (snd (newState_iteratee env self d w)) = upgrades w"
  by (simp add: newState_iteratee_def store_put_def store_delete_def)

lemma cached_cursor_upgrades: "upgrades (snd (cached_cursor recs st)) = upgrades (snd st)"
  by (induction recs st rule: cached_cursor.induct) simp_all

lemma load_cursor_upgrades: "upgrades (snd (load_cursor recs st)) = upgrades (snd st)"
  by (induction recs st rule: load_cursor.induct) simp_all

lemma cached_delete_upgrades:
  "upgrades (snd (snd (cached_delete env self k st))) = upgrades (snd st)"
  by (cases st) (simp add: cached_delete_def store_delete_def)

lemma cached_deletesDone_upgrades:
  "upgrades (snd (cached_deletesDone err st)) = upgrades (snd st)"
  by (cases st; cases err) (simp_all add: cached_deletesDone_def)

lemma cached_putsDone_upgrades:
  "upgrades (snd (cached_putsDone env self err st)) = upgrades (snd st)"
proof (cases st)
  case (Pair ks w)
  have "upgrades (snd (eachSeries ks (cached_delete env self) cached_deletesDone (ks, v)))
      = upgrades v" for v
    using eachSeries_obs [where f = "\<lambda>s. upgrades (snd s)" and iteratee = "cached_delete env self"
        and final = cached_deletesDone and xs = ks and s = "(ks, v)"]
    by (simp add: cached_delete_upgrades cached_deletesDone_upgrades)
  with Pair show ?thesis
    by (cases err) (simp_all add: cached_putsDone_def)
qed

lemma cached_put_upgrades:
  "upgrades (snd (snd (cached_put env self d st))) = upgrades (snd st)"
  by (cases st) (simp add: cached_put_def store_put_def)

lemma openWriteTransaction_upgrades:
  "upgrades (snd (openWriteTransaction env self w))
     = upgrades (snd (openDbEnsureStore env (dbName self) None (storeName self) w))"
  by (cases "openDbEnsureStore env (dbName self) None (storeName self) w")
     (simp add: openWriteTransaction_def split: option.splits)

lemma transaction_end_upgrades:
  assumes "\<And>e v. upgrades (onerror e v) = upgrades v" and "\<And>v. upgrades (oncomplete v) = upgrades v"
  shows "upgrades (transaction_end env onerror oncomplete w) = upgrades w"
  by (cases "trx_error env") (simp_all add: transaction_end_def assms)

lemma persistNewState_upgrades:
  "upgrades (persistNewState env self objects w)
     = upgrades (snd (openDbEnsureStore env (dbName self) None (storeName self) w))"
proof (cases "openWriteTransaction env self w")
  case (Pair err w1)
  have "upgrades (eachSeries objects (newState_iteratee env self) (newState_done None) w1)
      = upgrades w1"
    by (rule eachSeries_obs) (simp_all add: newState_iteratee_upgrades newState_done_def)
  with Pair openWriteTransaction_upgrades [of env self w] show ?thesis
    by (cases err) (simp_all add: persistNewState_def transaction_end_upgrades)
qed

lemma persistCachedDatabase_upgrades:
  "upgrades (persistCachedDatabase env self w)
     = (if inMemoryOnly self then upgrades w
        else upgrades (snd (openDbEnsureStore env (dbName self) None (storeName self) w)))"
proof (cases "openWriteTransaction env self w")
  case (Pair err w1)
  have "upgrades (snd (eachSeries (getAllData self) (cached_put env self)
          (cached_putsDone env self) st)) = upgrades (snd st)" for st
    by (rule eachSeries_obs [where f = "\<lambda>s. upgrades (snd s)"])
       (simp_all add: cached_put_upgrades cached_putsDone_upgrades)
  with Pair openWriteTransaction_upgrades [of env self w] show ?thesis
    by (cases err)
       (simp_all add: persistCachedDatabase_def transaction_end_upgrades cached_cursor_upgrades)
qed

lemma loadDatabase_upgrades:
  "upgrades (loadDatabase env self w)
     = (if self_inMemoryOnly env then upgrades w
        else upgrades (snd (openDbEnsureStore env (dbName self) None (storeName self) w)))"
proof (cases "openWriteTransaction env self w")
  case (Pair err w1)
  then have "openWriteTransaction env self (resetIndexes_call None w)
      = (err, resetIndexes_call None w1)"
    by (simp add: openWriteTransaction_resetIndexes)
  with Pair openWriteTransaction_upgrades [of env self w] show ?thesis
    by (cases err)
       (simp_all add: loadDatabase_def Let_def transaction_end_upgrades load_cursor_upgrades)
qed

lemma fresh_database_one_upgrade:
  "(case openDbEnsureStore ok_env ''db'' None ''docs'' fresh_world of (err, w') \<Rightarrow>
      err = None \<and> contains (indexedDB w' ''db'') ''docs'' \<and> upgrades w' = 1
      \<and> version (indexedDB w' ''db'') = 1)
   \<and> upgrades (persistNewState ok_env (collection []) [plain ''a''] fresh_world) = 1
   \<and> upgrades (persistCachedDatabase ok_env (collection [plain ''a'']) fresh_world) = 1
   \<and> upgrades (loadDatabase ok_env (collection []) fresh_world) = 1"
  by code_simp

text \<open>
  C7. On an engine that fails no open request, and with the version below the engine's
  highest, \<open>2^53 - 1\<close>, when the store is missing (the code then asks for the version plus
  one), \<open>openDbEnsureStore\<close> called without a version returns an open database that
  contains the store. When the store was missing,
  the schema version has gone up by exactly one (a database that did not exist goes from
  0 to 1) in exactly one upgrade; when the store was there, no upgrade has run and no
  database has changed. Ensuring the store a second time changes nothing. Every operation
  that opens the database runs exactly that one upgrade when the store is missing, and
  none when it is there.
\<close>

theorem store_ensured_with_one_upgrade:
  assumes nofail: "\<And>v. \<not> open_fails env v"
    and wf: "0 < version (indexedDB w (dbName self))
             \<or> \<not> contains (indexedDB w (dbName self)) (storeName self)"
    and bound: "contains (indexedDB w (dbName self)) (storeName self)
             \<or> version (indexedDB w (dbName self)) < 2 ^ 53 - 1"
  shows "(case openDbEnsureStore env (dbName self) None (storeName self) w of (err, w') \<Rightarrow>
           err = None \<and> contains (indexedDB w' (dbName self)) (storeName self)
           \<and> 0 < version (indexedDB w' (dbName self)) \<and>
           (if contains (indexedDB w (dbName self)) (storeName self)
            then upgrades w' = upgrades w \<and> indexedDB w' = indexedDB w
            else upgrades w' = upgrades w + 1 \<and>
                 version (indexedDB w' (dbName self)) = version (indexedDB w (dbName self)) + 1) \<and>
           (case openDbEnsureStore env (dbName self) None (storeName self) w' of (err2, w2) \<Rightarrow>
              err2 = None \<and> upgrades w2 = upgrades w' \<and> indexedDB w2 = indexedDB w'))
     \<and> upgrades (persistNewState env self objects w) = upgrades w +
          (if contains (indexedDB w (dbName self)) (storeName self) then 0 else 1)
     \<and> upgrades (persistCachedDatabase env self w) = upgrades w +
          (if inMemoryOnly self \<or> contains (indexedDB w (dbName self)) (storeName self)
           then 0 else 1)
     \<and> upgrades (loadDatabase env self w) = upgrades w +
          (if self_inMemoryOnly env \<or> contains (indexedDB w (dbName self)) (storeName self)
           then 0 else 1)"
proof -
  note once = ensure_store_once [OF nofail wf bound]
  obtain err w' where r: "openDbEnsureStore env (dbName self) None (storeName self) w = (err, w')"
    by (cases "openDbEnsureStore env (dbName self) None (storeName self) w")
  with once have u: "upgrades w' = upgrades w +
      (if contains (indexedDB w (dbName self)) (storeName self) then 0 else 1)"
    by (simp split: if_splits)
  have n: "upgrades (persistNewState env self objects w) = upgrades w +
          (if contains (indexedDB w (dbName self)) (storeName self) then 0 else 1)"
    using r u by (simp add: persistNewState_upgrades)
  have c: "upgrades (persistCachedDatabase env self w) = upgrades w +
          (if inMemoryOnly self \<or> contains (indexedDB w (dbName self)) (storeName self)
           then 0 else 1)"
    using r u by (simp add: persistCachedDatabase_upgrades)
  have l: "upgrades (loadDatabase env self w) = upgrades w +
          (if self_inMemoryOnly env \<or> contains (indexedDB w (dbName self)) (storeName self)
           then 0 else 1)"
    using r u by (simp add: loadDatabase_upgrades)
  from once n c l show ?thesis by blast
qed

text \<open>
  An instance: the database is at version 3 and has no store \<open>docs\<close>. Ensuring the
  store takes it to version 4 in one upgrade, and each operation runs that one upgrade.
\<close>

theorem store_ensured_with_one_upgrade_witness:
  "\<not> open_fails ok_env None \<and> \<not> open_fails ok_env (Some 4)
   \<and> \<not> contains (indexedDB without_store ''db'') ''docs''
   \<and> version (indexedDB without_store ''db'') = 3
   \<and> version (indexedDB without_store ''db'') < 2 ^ 53 - 1
   \<and> (case openDbEnsureStore ok_env ''db'' None ''docs'' without_store of (err, w') \<Rightarrow>
        err = None \<and> contains (indexedDB w' ''db'') ''docs'' \<and> upgrades w' = 1
        \<and> version (indexedDB w' ''db'') = 4)
   \<and> upgrades (persistNewState ok_env (collection []) [plain ''a''] without_store) = 1
   \<and> upgrades (persistCachedDatabase ok_env (collection []) without_store) = 1
   \<and> upgrades (loadDatabase ok_env (collection []) without_store) = 1"
proof -
  have a: "\<And>v. \<not> open_fails ok_env v" by (simp add: ok_env_def)
  have b: "\<not> contains (indexedDB without_store ''db'') ''docs''"
    by (simp add: without_store_def contains_def)
  have c: "version (indexedDB without_store ''db'') = 3" and d: "upgrades without_store = 0"
    by (simp_all add: without_store_def upgrades_def fresh_world_def)
  have s: "dbName (collection []) = ''db''" "storeName (collection []) = ''docs''"
    "\<not> inMemoryOnly (collection [])" "\<not> self_inMemoryOnly ok_env"
    by (simp_all add: collection_def ok_env_def)
  from b have wf: "0 < version (indexedDB without_store (dbName (collection [])))
      \<or> \<not> contains (indexedDB without_store (dbName (collection []))) (storeName (collection []))"
    by (simp add: s)
  from c have bd: "contains (indexedDB without_store (dbName (collection [])))
        (storeName (collection []))
      \<or> version (indexedDB without_store (dbName (collection []))) < 2 ^ 53 - 1"
    by (simp add: s)
  from store_ensured_with_one_upgrade [of ok_env without_store "collection []" "[plain ''a'']",
      OF a wf bd]
  show ?thesis using a b c d s by (auto split: prod.splits)
qed

section \<open>Compaction\<close>

lemma indexOf_from_found: "0 \<le> i \<Longrightarrow> x \<in> set xs \<Longrightarrow> 0 \<le> indexOf_from xs x i"
  by (induction xs x i rule: indexOf_from.induct) auto

lemma indexOf_from_missing: "x \<notin> set xs \<Longrightarrow> indexOf_from xs x i = - 1"
  by (induction xs x i rule: indexOf_from.induct) auto

lemma indexOf_minus_one: "indexOf xs x = - 1 \<longleftrightarrow> x \<notin> set xs"
  using indexOf_from_found [of 0 x xs] indexOf_from_missing [of x xs 0]
  by (auto simp: indexOf_def)

lemma splice_array_last: "splice_array xs (- 1) 1 = butlast xs"
  by (cases xs rule: rev_cases) (simp_all add: splice_array_def Let_def)

text \<open>
  What a successful upsert does to \<open>keysToDelete\<close>: nothing when the key is in it, and
  the loss of its last element when the key is not.
\<close>

lemma cached_put_keysToDelete:
  assumes "\<not> put_fails env d"
  shows "fst (snd (cached_put env self d (keysToDelete, w)))
       = (if doc_id d \<in> set keysToDelete then keysToDelete else butlast keysToDelete)"
proof (cases "doc_id d \<in> set keysToDelete")
  case True
  then have "indexOf keysToDelete (doc_id d) \<noteq> - 1" by (simp add: indexOf_minus_one)
  with assms True show ?thesis by (simp add: cached_put_def store_put_def)
next
  case False
  then have "indexOf keysToDelete (doc_id d) = - 1" by (simp add: indexOf_minus_one)
  with assms False show ?thesis by (simp add: cached_put_def store_put_def splice_array_last)
qed

text \<open>
  C1. The claim: after a successful \<open>persistCachedDatabase\<close> the durable key set is the
  identifier set of the snapshot. The code does not do that. With the snapshot
  \<open>[{_id: "a"}]\<close> and the store holding \<open>a\<close>, the run succeeds (the callback receives
  \<open>null\<close>) and leaves the store empty: a key is missing. With the same snapshot and the
  store holding \<open>c\<close>, the run leaves \<open>a\<close> and \<open>c\<close>: a key is extra.
\<close>

theorem persistCachedDatabase_misses_snapshot:
  "callbacks (persistCachedDatabase ok_env (collection [plain ''a'']) (stored [plain ''a'']))
     = [None]
   \<and> durableKeys (collection [plain ''a''])
       (persistCachedDatabase ok_env (collection [plain ''a'']) (stored [plain ''a''])) = {}
   \<and> callbacks (persistCachedDatabase ok_env (collection [plain ''a'']) (stored [plain ''c'']))
     = [None]
   \<and> durableKeys (collection [plain ''a''])
       (persistCachedDatabase ok_env (collection [plain ''a'']) (stored [plain ''c'']))
     = {''a'', ''c''}"
  by code_simp

text \<open>
  C2. The claim: a successful upsert removes the document's key from \<open>keysToDelete\<close>, so
  the delete phase deletes the durable keys that were not upserted. The test on line 137
  is \<open>=== -1\<close>: a key that is in \<open>keysToDelete\<close> stays there, and a key that is not in it
  makes \<open>splice(-1, 1)\<close> drop the last element. With \<open>keysToDelete = ["a"]\<close> the upsert
  of \<open>a\<close> leaves \<open>["a"]\<close>, and the delete phase deletes \<open>a\<close>; with
  \<open>keysToDelete = ["c"]\<close> the upsert of \<open>a\<close> leaves \<open>[]\<close>, and \<open>c\<close> is not deleted.
\<close>

theorem cached_put_keeps_upserted_key:
  "fst (snd (cached_put ok_env (collection []) (plain ''a'') ([''a''], stored [plain ''a''])))
     = [''a'']
   \<and> fst (snd (cached_put ok_env (collection []) (plain ''a'') ([''c''], stored [plain ''c''])))
     = []
   \<and> store_ops (persistCachedDatabase ok_env (collection [plain ''a'']) (stored [plain ''a'']))
     = [OpenCursor, Continue, Put (plain ''a''), Delete ''a'']
   \<and> store_ops (persistCachedDatabase ok_env (collection [plain ''a'']) (stored [plain ''c'']))
     = [OpenCursor, Continue, Put (plain ''a'')]"
  by code_simp

text \<open>
  C6. The claim: a second \<open>persistCachedDatabase\<close> with the same snapshot leaves the
  durable key set as the first run left it. On a new database and the snapshot
  \<open>[{_id: "a"}]\<close> the first run leaves \<open>{a}\<close> and the second run leaves the store empty.
\<close>

theorem persistCachedDatabase_twice_differs:
  "durableKeys (collection [plain ''a''])
     (persistCachedDatabase ok_env (collection [plain ''a'']) fresh_world) = {''a''}
   \<and> durableKeys (collection [plain ''a''])
       (persistCachedDatabase ok_env (collection [plain ''a''])
          (persistCachedDatabase ok_env (collection [plain ''a'']) fresh_world)) = {}"
  by code_simp

lemma cached_delete_ok:
  "\<not> delete_fails env k \<Longrightarrow> cached_delete env self k (ks, w) =
     (Called None, (ks, set_records (dbName self) (storeName self)
        (without k (records (dbName self) (storeName self) w)) (log (Delete k) w)))"
  by (simp add: cached_delete_def store_delete_def)

lemma cached_delete_error:
  "delete_fails env k \<Longrightarrow> cached_delete env self k (ks, w) =
     (Called (Some (''Error deleting document '' @ k)), (ks, log (Delete k) w))"
  by (simp add: cached_delete_def store_delete_def)

lemma cached_delete_callbacks:
  "callbacks (snd (snd (cached_delete env self k st))) = callbacks (snd st)"
  by (cases st) (simp add: cached_delete_def store_delete_def set_records_def log_def)

lemma cached_deletesDone_callbacks:
  "callbacks (snd (cached_deletesDone err st)) = callbacks (snd st)"
  by (cases st; cases err) (simp_all add: cached_deletesDone_def console_error_call_def)

lemma cached_delete_series_callbacks:
  "callbacks (snd (eachSeries ks (cached_delete env self) cached_deletesDone st))
     = callbacks (snd st)"
  by (rule eachSeries_obs [where f = "\<lambda>s. callbacks (snd s)"])
     (simp_all add: cached_delete_callbacks cached_deletesDone_callbacks)

lemma cached_delete_series_console:
  assumes "\<forall>x\<in>set kpre. \<not> delete_fails env x" and "delete_fails env k"
  shows "console_error (snd (eachSeries (kpre @ k # kpost) (cached_delete env self)
            cached_deletesDone (ks, w)))
         = console_error w @ [''Error deleting document '' @ k]"
  using assms
proof (induction kpre arbitrary: w)
  case Nil
  then show ?case
    by (simp add: cached_delete_error cached_deletesDone_def console_error_call_def log_def)
next
  case (Cons x kpre)
  then show ?case
    by (simp add: cached_delete_ok set_records_def log_def)
qed

lemma cached_putsDone_callbacks:
  "callbacks (snd (cached_putsDone env self err (ks, w)))
     = callbacks w @ (case err of Some e \<Rightarrow> [Some e] | None \<Rightarrow> [])"
  by (cases err) (simp_all add: cached_putsDone_def cached_delete_series_callbacks callback_def)

lemma cached_putsDone_console:
  assumes "\<forall>x\<in>set kpre. \<not> delete_fails env x" and "delete_fails env k"
  shows "console_error (snd (cached_putsDone env self None (kpre @ k # kpost, w)))
     = console_error w @ [''Error deleting document '' @ k]"
  using cached_delete_series_console [OF assms]
  by (simp add: cached_putsDone_def)

lemma cached_put_callbacks:
  "callbacks (snd (snd (cached_put env self d st))) = callbacks (snd st)"
  by (cases st) (simp add: cached_put_def store_put_def set_records_def log_def)

lemma cached_put_signal:
  "fst (cached_put env self d st) =
     (if put_fails env d then Called (Some (''Error putting document '' @ doc_id d))
      else Called None)"
  by (cases st) (simp add: cached_put_def store_put_def)

lemma cached_put_series_error:
  assumes "\<forall>x\<in>set pre. \<not> put_fails env x" and "put_fails env d"
  shows "callbacks (snd (eachSeries (pre @ d # post) (cached_put env self)
            (cached_putsDone env self) st))
         = callbacks (snd st) @ [Some (''Error putting document '' @ doc_id d)]"
  using assms
proof (induction pre arbitrary: st)
  case Nil
  obtain sg ks w where r: "cached_put env self d st = (sg, (ks, w))"
    by (cases "cached_put env self d st") auto
  with Nil cached_put_signal [of env self d st] cached_put_callbacks [of env self d st]
  show ?case by (simp add: cached_putsDone_callbacks)
next
  case (Cons x pre)
  obtain sg st' where r: "cached_put env self x st = (sg, st')"
    by (cases "cached_put env self x st")
  with Cons.prems cached_put_signal [of env self x st] cached_put_callbacks [of env self x st]
  have "sg = Called None" and "callbacks (snd st') = callbacks (snd st)" by simp_all
  with r Cons show ?case by simp
qed

lemma openWriteTransaction_callbacks:
  "callbacks (snd (openWriteTransaction env self w)) = callbacks w"
proof (cases "openDbEnsureStore env (dbName self) None (storeName self) w")
  case (Pair err w1)
  with ensure_frame [OF Pair] show ?thesis
    by (cases err) (simp_all add: openWriteTransaction_def log_def)
qed

lemma cached_cursor_callbacks:
  "callbacks (snd (cached_cursor recs st)) = callbacks (snd st)"
  by (induction recs st rule: cached_cursor.induct) (simp_all add: log_def)

lemma cached_put_series_prefix:
  "\<exists>xs. callbacks (snd (eachSeries objects (cached_put env self) (cached_putsDone env self) st))
          = callbacks (snd st) @ xs
        \<and> set xs \<subseteq> range (\<lambda>x. Some (''Error putting document '' @ x))"
proof (induction objects arbitrary: st)
  case Nil
  show ?case by (cases st) (simp add: cached_putsDone_callbacks)
next
  case (Cons x objects)
  obtain sg ks w where r: "cached_put env self x st = (sg, (ks, w))"
    by (cases "cached_put env self x st") auto
  from r cached_put_callbacks [of env self x st] have c: "callbacks w = callbacks (snd st)"
    by simp
  show ?case
  proof (cases "put_fails env x")
    case True
    with r cached_put_signal [of env self x st] c show ?thesis
      by (simp add: cached_putsDone_callbacks)
  next
    case False
    with r cached_put_signal [of env self x st] have "sg = Called None" by simp
    with r c Cons [of "(ks, w)"] show ?thesis by simp
  qed
qed

lemma persistCachedDatabase_callbacks:
  "\<exists>xs. callbacks (persistCachedDatabase env self w) = callbacks w @ xs
     \<and> set xs \<subseteq> {None, Some ''Error opening IndexedDB''}
         \<union> range (\<lambda>x. Some (''Error putting document '' @ x))
         \<union> range (\<lambda>e. Some (''Error persisting cached data:'' @ e))"
proof (cases "inMemoryOnly self")
  case True
  then show ?thesis by (simp add: persistCachedDatabase_def callback_def)
next
  case False
  obtain err w1 where o: "openWriteTransaction env self w = (err, w1)"
    by (cases "openWriteTransaction env self w")
  from o openWriteTransaction_callbacks [of env self w] have c1: "callbacks w1 = callbacks w"
    by simp
  show ?thesis
  proof (cases err)
    case (Some e)
    with o have "openDbEnsureStore env (dbName self) None (storeName self) w = (Some e, w1)"
      by (auto simp: openWriteTransaction_def split: prod.splits option.splits)
    then have "e = ''Error opening IndexedDB''" by (rule ensure_error)
    with False o Some c1 show ?thesis
      by (simp add: persistCachedDatabase_def callback_def)
  next
    case None
    define st where "st = cached_cursor (records (dbName self) (storeName self) w1)
                    ([], log OpenCursor w1)"
    have c2: "callbacks (snd st) = callbacks w"
      by (simp add: st_def cached_cursor_callbacks c1 log_def)
    obtain xs where xs: "callbacks (snd (eachSeries (getAllData self) (cached_put env self)
         (cached_putsDone env self) st)) = callbacks (snd st) @ xs"
      "set xs \<subseteq> range (\<lambda>x. Some (''Error putting document '' @ x))"
      using cached_put_series_prefix by blast
    have "callbacks (persistCachedDatabase env self w) = callbacks w @ xs @
        [map_option ((@) ''Error persisting cached data:'') (trx_error env)]"
      using False o None xs c2
      by (cases "trx_error env")
         (simp_all add: persistCachedDatabase_def transaction_end_def callback_def st_def)
    moreover have "set (xs @ [map_option ((@) ''Error persisting cached data:'') (trx_error env)])
       \<subseteq> {None, Some ''Error opening IndexedDB''}
         \<union> range (\<lambda>x. Some (''Error putting document '' @ x))
         \<union> range (\<lambda>e. Some (''Error persisting cached data:'' @ e))"
      using xs(2) by (cases "trx_error env") auto
    ultimately show ?thesis by blast
  qed
qed

lemma persistCachedDatabase_put_error:
  assumes "\<not> inMemoryOnly self" and "fst (openWriteTransaction env self w) = None"
    and "getAllData self = pre @ d # post"
    and "\<forall>x\<in>set pre. \<not> put_fails env x" and "put_fails env d"
  shows "\<exists>rest. callbacks (persistCachedDatabase env self w)
           = callbacks w @ Some (''Error putting document '' @ doc_id d) # rest"
proof -
  obtain w1 where o: "openWriteTransaction env self w = (None, w1)"
    using assms(2) by (cases "openWriteTransaction env self w") simp
  from o openWriteTransaction_callbacks [of env self w] have c1: "callbacks w1 = callbacks w"
    by simp
  define st where "st = cached_cursor (records (dbName self) (storeName self) w1)
                    ([], log OpenCursor w1)"
  have c2: "callbacks (snd st) = callbacks w"
    by (simp add: st_def cached_cursor_callbacks c1 log_def)
  from cached_put_series_error [OF assms(4,5), where self = self and post = post and st = st] c2 assms(1,3) o
  show ?thesis
    by (cases "trx_error env")
       (simp_all add: persistCachedDatabase_def transaction_end_def callback_def st_def)
qed

lemma cached_cursor_keys:
  "fst (cached_cursor recs (ks, v)) = ks @ map doc_id recs"
  by (induction recs arbitrary: ks v) simp_all

lemma cached_cursor_console:
  "console_error (snd (cached_cursor recs st)) = console_error (snd st)"
  by (induction recs st rule: cached_cursor.induct) (simp_all add: log_def)

lemma openWriteTransaction_console:
  "console_error (snd (openWriteTransaction env self w)) = console_error w"
proof (cases "openDbEnsureStore env (dbName self) None (storeName self) w")
  case (Pair err w1)
  with ensure_frame [OF Pair] show ?thesis
    by (cases err) (simp_all add: openWriteTransaction_def log_def)
qed

lemma cached_put_ok:
  assumes "\<not> put_fails env d"
  shows "\<exists>v'. cached_put env self d (ks, v) =
           (Called None, (if doc_id d \<in> set ks then ks else butlast ks, v'))
         \<and> console_error v' = console_error v \<and> callbacks v' = callbacks v"
proof -
  obtain sg ks' v' where r: "cached_put env self d (ks, v) = (sg, (ks', v'))"
    by (cases "cached_put env self d (ks, v)") auto
  from r assms cached_put_signal [of env self d "(ks, v)"] have "sg = Called None" by simp
  moreover from r cached_put_keysToDelete [OF assms, of self ks v]
  have "ks' = (if doc_id d \<in> set ks then ks else butlast ks)" by simp
  moreover from r assms have "console_error v' = console_error v \<and> callbacks v' = callbacks v"
    by (auto simp: cached_put_def store_put_def set_records_def log_def)
  ultimately show ?thesis using r by simp
qed

lemma cached_put_series_ok:
  assumes "\<forall>x\<in>set objects. \<not> put_fails env x"
  shows "\<exists>v'. eachSeries objects (cached_put env self) (cached_putsDone env self) (ks, v)
           = cached_putsDone env self None
               (foldl (\<lambda>ks d. if doc_id d \<in> set ks then ks else butlast ks) ks objects, v')
         \<and> console_error v' = console_error v \<and> callbacks v' = callbacks v"
  using assms
proof (induction objects arbitrary: ks v)
  case Nil
  have "eachSeries [] (cached_put env self) (cached_putsDone env self) (ks, v)
      = cached_putsDone env self None (ks, v)" by simp
  then show ?case by auto
next
  case (Cons x objects)
  then have "\<not> put_fails env x" by simp
  from cached_put_ok [OF this, of self ks v]
  obtain v1 where s: "cached_put env self x (ks, v) =
           (Called None, (if doc_id x \<in> set ks then ks else butlast ks, v1))"
    and f: "console_error v1 = console_error v" "callbacks v1 = callbacks v"
    by blast
  from Cons.prems have "\<forall>x\<in>set objects. \<not> put_fails env x" by simp
  from Cons.IH [OF this, of "if doc_id x \<in> set ks then ks else butlast ks" v1]
  show ?case using s f by auto
qed

lemma persistCachedDatabase_delete_error:
  assumes "\<not> inMemoryOnly self" and "fst (openWriteTransaction env self w) = None"
    and "\<forall>x\<in>set (getAllData self). \<not> put_fails env x"
    and "foldl (\<lambda>ks d. if doc_id d \<in> set ks then ks else butlast ks)
           (map doc_id (records (dbName self) (storeName self)
              (snd (openWriteTransaction env self w))))
           (getAllData self) = kpre @ k # kpost"
    and "\<forall>x\<in>set kpre. \<not> delete_fails env x" and "delete_fails env k"
  shows "console_error (persistCachedDatabase env self w)
           = console_error w @ [''Error deleting document '' @ k]
     \<and> callbacks (persistCachedDatabase env self w)
           = callbacks w @ [map_option ((@) ''Error persisting cached data:'') (trx_error env)]"
proof -
  obtain w1 where o: "openWriteTransaction env self w = (None, w1)"
    using assms(2) by (cases "openWriteTransaction env self w") simp
  from o openWriteTransaction_callbacks [of env self w] openWriteTransaction_console [of env self w]
  have f1: "callbacks w1 = callbacks w" "console_error w1 = console_error w" by simp_all
  obtain ks0 w2 where c: "cached_cursor (records (dbName self) (storeName self) w1)
       ([], log OpenCursor w1) = (ks0, w2)"
    by (cases "cached_cursor (records (dbName self) (storeName self) w1) ([], log OpenCursor w1)")
  from c cached_cursor_keys [of "records (dbName self) (storeName self) w1" "[]" "log OpenCursor w1"]
  have k0: "ks0 = map doc_id (records (dbName self) (storeName self) w1)" by simp
  from c cached_cursor_callbacks [of "records (dbName self) (storeName self) w1" "([], log OpenCursor w1)"]
    cached_cursor_console [of "records (dbName self) (storeName self) w1" "([], log OpenCursor w1)"] f1
  have f2: "callbacks w2 = callbacks w" "console_error w2 = console_error w"
    by (simp_all add: log_def)
  from cached_put_series_ok [OF assms(3), of self ks0 w2] assms(4) o k0
  obtain v' where s: "eachSeries (getAllData self) (cached_put env self) (cached_putsDone env self)
        (ks0, w2) = cached_putsDone env self None (kpre @ k # kpost, v')"
    and f3: "console_error v' = console_error w2" "callbacks v' = callbacks w2"
    by auto
  define v where "v = snd (cached_putsDone env self None (kpre @ k # kpost, v'))"
  have f4: "console_error v = console_error w @ [''Error deleting document '' @ k]"
    "callbacks v = callbacks w"
    using cached_putsDone_console [OF assms(5,6), of self kpost v']
      cached_putsDone_callbacks [of env self None "kpre @ k # kpost" v'] f2 f3
    by (simp_all add: v_def)
  have "persistCachedDatabase env self w = transaction_end env
              (\<lambda>e. callback (Some (''Error persisting cached data:'' @ e)))
              (callback None) v"
    using assms(1) o c s by (simp add: persistCachedDatabase_def v_def)
  with f4 show ?thesis
    by (cases "trx_error env") (simp_all add: transaction_end_def callback_def)
qed

text \<open>
  C9. The claim: a failing put or delete reports a write error with the record's key to
  the caller's callback. For a delete it does not: with an empty snapshot, the store
  holding \<open>a\<close> and a failing delete of \<open>a\<close>, the caller's callback receives only the
  error of the transaction, and the key appears only in the line written with
  \<open>console.error\<close>.
\<close>

theorem persistCachedDatabase_delete_error_counterexample:
  "delete_fails (failing_on ''a'') ''a''
   \<and> store_ops (persistCachedDatabase (failing_on ''a'') (collection []) (stored [plain ''a'']))
      = [OpenCursor, Continue, Delete ''a'']
   \<and> callbacks (persistCachedDatabase (failing_on ''a'') (collection []) (stored [plain ''a'']))
      = [Some ''Error persisting cached data:AbortError'']
   \<and> console_error (persistCachedDatabase (failing_on ''a'') (collection []) (stored [plain ''a'']))
      = [''Error deleting document a'']"
  by code_simp

text \<open>
  C9, as amended. In \<open>persistCachedDatabase\<close>, once the database is open: when the put of a
  record fails, \<open>Error putting document\<close> followed by the record's key is the first value
  the run passes to the caller's callback. When no put fails and the delete of a key fails
  (the first failing key of \<open>keysToDelete\<close> as the puts have left it), the run writes
  \<open>Error deleting document\<close> followed by the key with \<open>console.error\<close>, once, and the
  caller's callback receives the error of the transaction and nothing else. No run passes
  a delete error to the caller's callback.
\<close>

theorem persistCachedDatabase_record_errors:
  assumes "\<not> inMemoryOnly self"
    and "fst (openWriteTransaction env self w) = None"
    and "contains (indexedDB w (dbName self)) (storeName self)
         \<or> version (indexedDB w (dbName self)) < 2 ^ 53 - 1"
  shows "(getAllData self = pre @ d # post \<and> (\<forall>x\<in>set pre. \<not> put_fails env x) \<and> put_fails env d
          \<longrightarrow> (\<exists>rest. callbacks (persistCachedDatabase env self w)
                 = callbacks w @ Some (''Error putting document '' @ doc_id d) # rest))
     \<and> ((\<forall>x\<in>set (getAllData self). \<not> put_fails env x)
         \<and> foldl (\<lambda>ks d. if doc_id d \<in> set ks then ks else butlast ks)
              (map doc_id (records (dbName self) (storeName self)
                 (snd (openWriteTransaction env self w))))
              (getAllData self) = kpre @ k # kpost
         \<and> (\<forall>x\<in>set kpre. \<not> delete_fails env x) \<and> delete_fails env k
         \<and> trx_error env = Some e
          \<longrightarrow> console_error (persistCachedDatabase env self w)
                 = console_error w @ [''Error deleting document '' @ k]
              \<and> callbacks (persistCachedDatabase env self w)
                 = callbacks w @ [Some (''Error persisting cached data:'' @ e)])
     \<and> Some (''Error deleting document '' @ j)
           \<notin> set (drop (length (callbacks w)) (callbacks (persistCachedDatabase env self w)))"
proof (intro conjI impI)
  assume "getAllData self = pre @ d # post \<and> (\<forall>x\<in>set pre. \<not> put_fails env x) \<and> put_fails env d"
  with assms(1,2) show "\<exists>rest. callbacks (persistCachedDatabase env self w)
                 = callbacks w @ Some (''Error putting document '' @ doc_id d) # rest"
    using persistCachedDatabase_put_error [of self env w pre d post] by blast
next
  assume a: "(\<forall>x\<in>set (getAllData self). \<not> put_fails env x)
         \<and> foldl (\<lambda>ks d. if doc_id d \<in> set ks then ks else butlast ks)
              (map doc_id (records (dbName self) (storeName self)
                 (snd (openWriteTransaction env self w))))
              (getAllData self) = kpre @ k # kpost
         \<and> (\<forall>x\<in>set kpre. \<not> delete_fails env x) \<and> delete_fails env k
         \<and> trx_error env = Some e"
  from a have a1: "\<forall>x\<in>set (getAllData self). \<not> put_fails env x"
    and a2: "foldl (\<lambda>ks d. if doc_id d \<in> set ks then ks else butlast ks)
              (map doc_id (records (dbName self) (storeName self)
                 (snd (openWriteTransaction env self w))))
              (getAllData self) = kpre @ k # kpost"
    and a3: "\<forall>x\<in>set kpre. \<not> delete_fails env x" and a4: "delete_fails env k"
    and a5: "trx_error env = Some e"
    by blast+
  note t = persistCachedDatabase_delete_error [OF assms(1,2) a1 a2 a3 a4]
  from t show "console_error (persistCachedDatabase env self w)
                 = console_error w @ [''Error deleting document '' @ k]"
    by (rule conjunct1)
  from t a5 show "callbacks (persistCachedDatabase env self w)
                 = callbacks w @ [Some (''Error persisting cached data:'' @ e)]"
    by simp
next
  obtain xs where xs: "callbacks (persistCachedDatabase env self w) = callbacks w @ xs"
    "set xs \<subseteq> {None, Some ''Error opening IndexedDB''}
         \<union> range (\<lambda>x. Some (''Error putting document '' @ x))
         \<union> range (\<lambda>e. Some (''Error persisting cached data:'' @ e))"
    using persistCachedDatabase_callbacks by blast
  have "Some (''Error deleting document '' @ j) \<notin> set xs"
    using xs(2) by auto
  with xs(1) show "Some (''Error deleting document '' @ j)
           \<notin> set (drop (length (callbacks w)) (callbacks (persistCachedDatabase env self w)))"
    by simp
qed

text \<open>
  Two instances, the put and the delete of \<open>b\<close> failing. On an empty store and the
  snapshot \<open>a, b, c\<close> the first value the callback receives is the put error of \<open>b\<close>,
  and no delete is issued. On a store holding \<open>a, b, c\<close> and the snapshot \<open>a\<close> the
  delete of \<open>b\<close> is the one failing request: its error is logged and the callback
  receives the error of the transaction.
\<close>

theorem persistCachedDatabase_record_errors_witness:
  "\<not> inMemoryOnly (collection [plain ''a'', plain ''b'', plain ''c''])
   \<and> fst (openWriteTransaction (failing_on ''b'')
        (collection [plain ''a'', plain ''b'', plain ''c'']) (stored [])) = None
   \<and> contains (indexedDB (stored []) ''db'') ''docs''
   \<and> \<not> put_fails (failing_on ''b'') (plain ''a'') \<and> put_fails (failing_on ''b'') (plain ''b'')
   \<and> hd (callbacks (persistCachedDatabase (failing_on ''b'')
        (collection [plain ''a'', plain ''b'', plain ''c'']) (stored [])))
      = Some ''Error putting document b''
   \<and> store_ops (persistCachedDatabase (failing_on ''b'')
        (collection [plain ''a'', plain ''b'', plain ''c'']) (stored []))
      = [OpenCursor, Put (plain ''a''), Put (plain ''b'')]
   \<and> \<not> inMemoryOnly (collection [plain ''a''])
   \<and> fst (openWriteTransaction (failing_on ''b'') (collection [plain ''a''])
        (stored [plain ''a'', plain ''b'', plain ''c''])) = None
   \<and> contains (indexedDB (stored [plain ''a'', plain ''b'', plain ''c'']) ''db'') ''docs''
   \<and> \<not> delete_fails (failing_on ''b'') ''a'' \<and> delete_fails (failing_on ''b'') ''b''
   \<and> trx_error (failing_on ''b'') = Some ''AbortError''
   \<and> console_error (persistCachedDatabase (failing_on ''b'') (collection [plain ''a''])
        (stored [plain ''a'', plain ''b'', plain ''c'']))
      = [''Error deleting document b'']
   \<and> callbacks (persistCachedDatabase (failing_on ''b'') (collection [plain ''a''])
        (stored [plain ''a'', plain ''b'', plain ''c'']))
      = [Some ''Error persisting cached data:AbortError'']
   \<and> store_ops (persistCachedDatabase (failing_on ''b'') (collection [plain ''a''])
        (stored [plain ''a'', plain ''b'', plain ''c'']))
      = [OpenCursor, Continue, Continue, Continue, Put (plain ''a''), Delete ''a'', Delete ''b'']"
proof -
  let ?env = "failing_on ''b''"
  let ?p = "collection [plain ''a'', plain ''b'', plain ''c'']"
  let ?q = "collection [plain ''a'']"
  let ?v = "stored [plain ''a'', plain ''b'', plain ''c'']"
  have p1: "\<not> inMemoryOnly ?p" and q1: "\<not> inMemoryOnly ?q"
    by (simp_all add: collection_def)
  have p2: "fst (openWriteTransaction ?env ?p (stored [])) = None"
    and q2: "fst (openWriteTransaction ?env ?q ?v) = None"
    by code_simp+
  have p3: "contains (indexedDB (stored []) ''db'') ''docs''"
    and q3: "contains (indexedDB ?v ''db'') ''docs''"
    by (simp_all add: stored_def contains_def)
  have n: "dbName ?p = ''db''" "storeName ?p = ''docs''" "dbName ?q = ''db''"
    "storeName ?q = ''docs''"
    by (simp_all add: collection_def)
  have f: "\<not> put_fails ?env (plain ''a'')" "put_fails ?env (plain ''b'')"
    "\<not> delete_fails ?env ''a''" "delete_fails ?env ''b''" "trx_error ?env = Some ''AbortError''"
    by (simp_all add: failing_on_def plain_def)
  have e: "callbacks (stored []) = []" "callbacks ?v = []" "console_error ?v = []"
    "doc_id (plain ''b'') = ''b''"
    by (simp_all add: stored_def fresh_world_def plain_def)
  have pa: "getAllData ?p = [plain ''a''] @ plain ''b'' # [plain ''c'']
      \<and> (\<forall>x\<in>set [plain ''a'']. \<not> put_fails ?env x) \<and> put_fails ?env (plain ''b'')"
    using f by (simp add: collection_def)
  have qk: "foldl (\<lambda>ks d. if doc_id d \<in> set ks then ks else butlast ks)
              (map doc_id (records (dbName ?q) (storeName ?q) (snd (openWriteTransaction ?env ?q ?v))))
              (getAllData ?q) = [''a''] @ ''b'' # [''c'']"
    by code_simp
  have qa: "(\<forall>x\<in>set (getAllData ?q). \<not> put_fails ?env x)
         \<and> foldl (\<lambda>ks d. if doc_id d \<in> set ks then ks else butlast ks)
              (map doc_id (records (dbName ?q) (storeName ?q) (snd (openWriteTransaction ?env ?q ?v))))
              (getAllData ?q) = [''a''] @ ''b'' # [''c'']
         \<and> (\<forall>x\<in>set [''a'']. \<not> delete_fails ?env x) \<and> delete_fails ?env ''b''
         \<and> trx_error ?env = Some ''AbortError''"
    using f qk by (simp add: collection_def)
  have pb: "contains (indexedDB (stored []) (dbName ?p)) (storeName ?p)
      \<or> version (indexedDB (stored []) (dbName ?p)) < 2 ^ 53 - 1"
    and qb: "contains (indexedDB ?v (dbName ?q)) (storeName ?q)
      \<or> version (indexedDB ?v (dbName ?q)) < 2 ^ 53 - 1"
    using p3 q3 n by simp_all
  note tp = persistCachedDatabase_record_errors [OF p1 p2 pb, where pre = "[plain ''a'']"
      and d = "plain ''b''" and post = "[plain ''c'']"]
  from tp [THEN conjunct1, THEN mp, OF pa]
  obtain rest where "callbacks (persistCachedDatabase ?env ?p (stored []))
      = callbacks (stored []) @ Some (''Error putting document '' @ doc_id (plain ''b'')) # rest"
    by blast
  then have r1: "hd (callbacks (persistCachedDatabase ?env ?p (stored [])))
      = Some ''Error putting document b''"
    by (simp add: e)
  note tq = persistCachedDatabase_record_errors [OF q1 q2 qb, where kpre = "[''a'']"
      and k = "''b''" and kpost = "[''c'']" and e = "''AbortError''"]
  from tq [THEN conjunct2, THEN conjunct1, THEN mp, OF qa]
  have r2: "console_error (persistCachedDatabase ?env ?q ?v) = [''Error deleting document b'']"
    and r3: "callbacks (persistCachedDatabase ?env ?q ?v)
      = [Some ''Error persisting cached data:AbortError'']"
    by (simp_all add: e)
  have s1: "store_ops (persistCachedDatabase ?env ?p (stored []))
      = [OpenCursor, Put (plain ''a''), Put (plain ''b'')]"
    and s2: "store_ops (persistCachedDatabase ?env ?q ?v)
      = [OpenCursor, Continue, Continue, Continue, Put (plain ''a''), Delete ''a'', Delete ''b'']"
    by code_simp+
  show ?thesis
    by (intro conjI) (rule p1 p2 p3 q1 q2 q3 f r1 r2 r3 s1 s2)+
qed

section \<open>Incremental persistence\<close>

text \<open>
  The example of the specification: the delta \<open>[{_id: "a", $$deleted: true},
  {_id: "b", name: "x"}]\<close> on a store holding \<open>a\<close> and \<open>c\<close> leaves \<open>c\<close> and \<open>b\<close>.
\<close>

lemma persistNewState_example:
  "durableKeys (collection [])
     (persistNewState ok_env (collection [])
        [(plain ''a'')\<lparr>deleted := True\<rparr>, (plain ''b'')\<lparr>content := ''x''\<rparr>]
        (stored [plain ''a'', plain ''c''])) = {''c'', ''b''}"
  by code_simp

text \<open>A marker document that the series reaches ends it, whatever follows.\<close>

lemma newState_marker_stalls:
  "\<not> deleted d \<Longrightarrow> indexCreated d \<or> indexRemoved d \<Longrightarrow>
     eachSeries (d # post) (newState_iteratee env self) final w = w"
  by (auto simp: newState_iteratee_def)

text \<open>
  C3. The claim: a marker document is skipped and the documents after it are still
  processed. The iteratee never calls the series callback for a marker, so the series
  stops there. The delta \<open>[{$$indexCreated: ...}, {_id: "b"}]\<close> on an empty store issues
  no put, leaves the store empty, and the transaction completes with success.
\<close>

theorem persistNewState_stops_at_marker:
  "store_ops (persistNewState ok_env (collection [])
      [(plain ''m'')\<lparr>indexCreated := True\<rparr>, plain ''b''] (stored [])) = []
   \<and> durableKeys (collection []) (persistNewState ok_env (collection [])
      [(plain ''m'')\<lparr>indexCreated := True\<rparr>, plain ''b''] (stored [])) = {}
   \<and> callbacks (persistNewState ok_env (collection [])
      [(plain ''m'')\<lparr>indexCreated := True\<rparr>, plain ''b''] (stored [])) = [None]"
  by code_simp

lemma eachSeries_stops:
  assumes "\<And>s. fst (iteratee x s) \<noteq> Called None"
  shows "eachSeries (pre @ x # post) iteratee final s = eachSeries (pre @ [x]) iteratee final s"
proof (induction pre arbitrary: s)
  case Nil
  from assms [of s] show ?case
    by (cases "iteratee x s") (auto split: signal.splits option.splits)
next
  case (Cons p pre)
  then show ?case
    by (cases "iteratee p s") (auto split: signal.splits option.splits)
qed







text \<open>
  C10. In \<open>persistNewState\<close> the error handler of a tombstone's delete refers to \<open>k\<close>,
  which no enclosing scope defines. When the delete of a tombstoned document fails, the
  handler throws a reference error and never calls the series callback: whatever the final
  callback of the series is, it does not run, and no later document is processed.
\<close>

theorem persistNewState_delete_error_throws:
  assumes "deleted d" "delete_fails env (doc_id d)"
  shows "newState_iteratee env self d w =
           (NotCalled, throw ''ReferenceError: k is not defined'' (log (Delete (doc_id d)) w))
     \<and> eachSeries (d # post) (newState_iteratee env self) final w =
           throw ''ReferenceError: k is not defined'' (log (Delete (doc_id d)) w)
     \<and> persistNewState env self (pre @ d # post) w = persistNewState env self (pre @ [d]) w"
proof -
  have it: "\<And>s. newState_iteratee env self d s =
           (NotCalled, throw ''ReferenceError: k is not defined'' (log (Delete (doc_id d)) s))"
    using assms by (simp add: newState_iteratee_def store_delete_def)
  have stop: "\<And>fin s. eachSeries (pre @ d # post) (newState_iteratee env self) fin s
      = eachSeries (pre @ [d]) (newState_iteratee env self) fin s"
    by (rule eachSeries_stops) (simp add: it)
  have "persistNewState env self (pre @ d # post) w = persistNewState env self (pre @ [d]) w"
    by (simp add: persistNewState_def stop split: prod.splits option.splits)
  with it show ?thesis by simp
qed

text \<open>
  An instance: the delete of \<open>a\<close> fails. The delta \<open>c, a (tombstone), b\<close> on a store
  holding \<open>a\<close> has the effect of the delta \<open>c, a (tombstone)\<close>: a put, a delete, one
  uncaught reference error, and nothing written with \<open>console.error\<close>.
\<close>

theorem persistNewState_delete_error_throws_witness:
  "deleted ((plain ''a'')\<lparr>deleted := True\<rparr>)
   \<and> delete_fails (failing_on ''a'') (doc_id ((plain ''a'')\<lparr>deleted := True\<rparr>))
   \<and> persistNewState (failing_on ''a'') (collection [])
        ([plain ''c''] @ (plain ''a'')\<lparr>deleted := True\<rparr> # [plain ''b'']) (stored [plain ''a''])
      = persistNewState (failing_on ''a'') (collection [])
        ([plain ''c''] @ [(plain ''a'')\<lparr>deleted := True\<rparr>]) (stored [plain ''a''])
   \<and> uncaught (persistNewState (failing_on ''a'') (collection [])
        ([plain ''c''] @ [(plain ''a'')\<lparr>deleted := True\<rparr>]) (stored [plain ''a'']))
      = [''ReferenceError: k is not defined'']
   \<and> console_error (persistNewState (failing_on ''a'') (collection [])
        ([plain ''c''] @ [(plain ''a'')\<lparr>deleted := True\<rparr>]) (stored [plain ''a''])) = []
   \<and> store_ops (persistNewState (failing_on ''a'') (collection [])
        ([plain ''c''] @ [(plain ''a'')\<lparr>deleted := True\<rparr>]) (stored [plain ''a'']))
      = [Put (plain ''c''), Delete ''a'']"
proof -
  have h: "deleted ((plain ''a'')\<lparr>deleted := True\<rparr>)"
    "delete_fails (failing_on ''a'') (doc_id ((plain ''a'')\<lparr>deleted := True\<rparr>))"
    by (simp_all add: failing_on_def plain_def)
  have s: "uncaught (persistNewState (failing_on ''a'') (collection [])
        ([plain ''c''] @ [(plain ''a'')\<lparr>deleted := True\<rparr>]) (stored [plain ''a'']))
      = [''ReferenceError: k is not defined'']"
    "console_error (persistNewState (failing_on ''a'') (collection [])
        ([plain ''c''] @ [(plain ''a'')\<lparr>deleted := True\<rparr>]) (stored [plain ''a''])) = []"
    "store_ops (persistNewState (failing_on ''a'') (collection [])
        ([plain ''c''] @ [(plain ''a'')\<lparr>deleted := True\<rparr>]) (stored [plain ''a'']))
      = [Put (plain ''c''), Delete ''a'']"
    by code_simp+
  from persistNewState_delete_error_throws [OF h, of "collection []" "stored [plain ''a'']"
      "[plain ''b'']" "newState_done None" "[plain ''c'']"]
  have t: "persistNewState (failing_on ''a'') (collection [])
        ([plain ''c''] @ (plain ''a'')\<lparr>deleted := True\<rparr> # [plain ''b'']) (stored [plain ''a''])
      = persistNewState (failing_on ''a'') (collection [])
        ([plain ''c''] @ [(plain ''a'')\<lparr>deleted := True\<rparr>]) (stored [plain ''a''])"
    by (rule conjunct2 [THEN conjunct2])
  show ?thesis
    by (intro conjI) (rule h t s)+
qed

section \<open>In-memory-only mode\<close>

text \<open>
  C5. The claim: with \<open>inMemoryOnly\<close> set, \<open>persistCachedDatabase\<close> and \<open>loadDatabase\<close>
  both succeed at once and touch no store. \<open>persistCachedDatabase\<close> does
  (\<open>persistCachedDatabase_inMemoryOnly\<close>). \<open>loadDatabase\<close> reads the flag from the global
  \<open>self\<close>: with \<open>inMemoryOnly\<close> set on the \<open>Persistence\<close> object it opens the database,
  upgrades it, creates the store, opens a transaction and a cursor.
\<close>

theorem loadDatabase_ignores_inMemoryOnly:
  "trace (loadDatabase ok_env ((collection [])\<lparr>inMemoryOnly := True\<rparr>) fresh_world) =
     [IDBOpen ''db'' None, UpgradeNeeded 0 1, CreateObjectStore ''docs'',
      Transaction ''docs'' readwrite, OpenCursor]"
  by code_simp

text \<open>\<open>loadDatabase\<close> never reads the \<open>inMemoryOnly\<close> field of its object.\<close>

lemma openWriteTransaction_inMemoryOnly_unread:
  "openWriteTransaction env (self\<lparr>inMemoryOnly := b\<rparr>) w = openWriteTransaction env self w"
  by (simp add: openWriteTransaction_def split: prod.splits option.splits)

lemma loadDatabase_inMemoryOnly_unread:
  "loadDatabase env (self\<lparr>inMemoryOnly := b\<rparr>) w = loadDatabase env self w"
  by (simp add: loadDatabase_def Let_def openWriteTransaction_inMemoryOnly_unread
      split: prod.splits option.splits)

lemma persistCachedDatabase_inMemoryOnly:
  "persistCachedDatabase env (self\<lparr>inMemoryOnly := True\<rparr>) w = callback None w"
  by (simp add: persistCachedDatabase_def)

end
